theory Spec2Isabelle
  imports Main
begin

section \<open>Python strings\<close>

text \<open>
  A Python \<open>str\<close> is a sequence of code points. It is modelled as a \<^typ>\<open>string\<close>
  in which every \<^typ>\<open>char\<close> is one code point of the range 0..255 (ASCII and the
  Latin-1 supplement); \<open>of_char c\<close> is the code point. The character classes below are
  those of CPython's \<open>str.isspace\<close>, \<open>str.isalnum\<close> and of the \<open>re\<close> module for
  \<open>str\<close> patterns on that range.
\<close>

definition isspace :: "char \<Rightarrow> bool" where
  "isspace c =
     (let n = (of_char c :: nat)
      in (9 \<le> n \<and> n \<le> 13) \<or> (28 \<le> n \<and> n \<le> 32) \<or> n = 133 \<or> n = 160)"

definition isalnum :: "char \<Rightarrow> bool" where
  "isalnum c =
     (let n = (of_char c :: nat)
      in (48 \<le> n \<and> n \<le> 57) \<or> (65 \<le> n \<and> n \<le> 90) \<or> (97 \<le> n \<and> n \<le> 122)
         \<or> n = 170 \<or> n = 178 \<or> n = 179 \<or> n = 181 \<or> n = 185 \<or> n = 186
         \<or> (188 \<le> n \<and> n \<le> 190) \<or> (192 \<le> n \<and> n \<le> 214)
         \<or> (216 \<le> n \<and> n \<le> 246) \<or> (248 \<le> n \<and> n \<le> 255))"

text \<open>The class \<open>\w\<close> of \<open>re\<close>: alphanumeric or the underscore.\<close>

definition re_word :: "char \<Rightarrow> bool" where
  "re_word c = (isalnum c \<or> c = CHR ''_'')"

text \<open>The class \<open>\s\<close> of \<open>re\<close>.\<close>

definition re_space :: "char \<Rightarrow> bool" where
  "re_space c = isspace c"

text \<open>\<open>s.startswith(p)\<close>\<close>

definition startswith :: "string \<Rightarrow> string \<Rightarrow> bool" where
  "startswith s p = (take (length p) s = p)"

text \<open>\<open>s.strip()\<close>: leading and trailing whitespace removed.\<close>

definition strip :: "string \<Rightarrow> string" where
  "strip s = rev (dropWhile isspace (rev (dropWhile isspace s)))"

text \<open>
  \<open>s.replace(old, new)\<close>: every non-overlapping occurrence of \<open>old\<close>, found from the
  left, becomes \<open>new\<close>. With an empty \<open>old\<close> Python puts \<open>new\<close> before every character
  and at the end.
\<close>

fun replace_scan :: "string \<Rightarrow> string \<Rightarrow> string \<Rightarrow> string" where
  "replace_scan [] old new = []"
| "replace_scan (c # cs) old new =
     (if startswith (c # cs) old
      then new @ replace_scan (drop (length old - 1) cs) old new
      else c # replace_scan cs old new)"

definition replace :: "string \<Rightarrow> string \<Rightarrow> string \<Rightarrow> string" where
  "replace s old new =
     (if old = [] then new @ concat (map (\<lambda>c. c # new) s) else replace_scan s old new)"

text \<open>\<open>unit * n\<close> for a string \<open>unit\<close> and an integer \<open>n\<close>: empty when \<open>n \<le> 0\<close>.\<close>

definition str_times :: "string \<Rightarrow> int \<Rightarrow> string" where
  "str_times unit n = concat (replicate (nat n) unit)"

section \<open>The filesystem-safe identifier\<close>

text \<open>
  \<^verbatim>\<open>
  safe_title = re.sub(r"[^\w\s-]", "", title)
  safe_title = re.sub(r"[-\s]+", "_", safe_title)
  \<close>
  The first substitution deletes every character outside the class; the second replaces
  every maximal run of hyphens and whitespace by one underscore.
\<close>

definition kept_char :: "char \<Rightarrow> bool" where
  "kept_char c = (re_word c \<or> re_space c \<or> c = CHR ''-'')"

definition sep_char :: "char \<Rightarrow> bool" where
  "sep_char c = (c = CHR ''-'' \<or> re_space c)"

definition strip_unsafe :: "string \<Rightarrow> string" where
  "strip_unsafe s = filter kept_char s"

function collapse_runs :: "string \<Rightarrow> string" where
  "collapse_runs [] = []"
| "collapse_runs (c # cs) =
     (if sep_char c then CHR ''_'' # collapse_runs (dropWhile sep_char cs)
      else c # collapse_runs cs)"
  by pat_completeness auto
termination
  by (relation "measure length") (auto simp: le_imp_less_Suc length_dropWhile_le)

definition safe_title :: "string \<Rightarrow> string" where
  "safe_title title = collapse_runs (strip_unsafe title)"

section \<open>The two lazy regular expressions\<close>

text \<open>
  A matcher reads a prefix of its input and returns a value with the rest of the input, or
  fails. Matchers are composed in continuation style, so that a lazy quantifier backtracks
  as \<open>re\<close> does: \<open>.+?\<close> takes one character, tries the rest of the pattern, and takes
  one more character each time the rest fails. The dot matches every character but the
  newline (no \<open>DOTALL\<close> flag is given).
\<close>

abbreviation NL :: char where "NL \<equiv> CHR 0x0A"
abbreviation BS :: char where "BS \<equiv> CHR 0x5C"

type_synonym 'a matcher = "string \<Rightarrow> ('a \<times> string) option"

definition accept :: "unit matcher" where
  "accept s = Some ((), s)"

definition lit :: "string \<Rightarrow> 'a matcher \<Rightarrow> 'a matcher" where
  "lit p k s = (if startswith s p then k (drop (length p) s) else None)"

definition dot :: "char \<Rightarrow> bool" where
  "dot c = (c \<noteq> NL)"

fun lazy_more :: "'a matcher \<Rightarrow> string \<Rightarrow> (string \<times> 'a) matcher" where
  "lazy_more k g [] =
     (case k [] of Some (v, rest) \<Rightarrow> Some ((g, v), rest) | None \<Rightarrow> None)"
| "lazy_more k g (c # cs) =
     (case k (c # cs) of
        Some (v, rest) \<Rightarrow> Some ((g, v), rest)
      | None \<Rightarrow> if dot c then lazy_more k (g @ [c]) cs else None)"

fun dot_plus_lazy :: "'a matcher \<Rightarrow> (string \<times> 'a) matcher" where
  "dot_plus_lazy k [] = None"
| "dot_plus_lazy k (c # cs) = (if dot c then lazy_more k [c] cs else None)"

text \<open>\<^verbatim>\<open>\{\{:(.+?)\}\}\<close> at the start of the input: the group and the rest.\<close>

definition match_marker :: "string \<Rightarrow> (string \<times> string) option" where
  "match_marker s =
     (case lit ''{{:'' (dot_plus_lazy (lit ''}}'' accept)) s of
        Some ((g, _), rest) \<Rightarrow> Some (g, rest)
      | None \<Rightarrow> None)"

text \<open>\<^verbatim>\<open>\\url\{.+?\}\{(.+?)\}\<close> at the start of the input: group 1 and the rest.\<close>

definition match_url :: "string \<Rightarrow> (string \<times> string) option" where
  "match_url s =
     (case lit (BS # ''url{'')
             (dot_plus_lazy (lit ''}{'' (dot_plus_lazy (lit ''}'' accept)))) s of
        Some ((_, g, _), rest) \<Rightarrow> Some (g, rest)
      | None \<Rightarrow> None)"

text \<open>A matcher that never returns more input than it was given.\<close>

definition shrinking :: "'a matcher \<Rightarrow> bool" where
  "shrinking k = (\<forall>s v r. k s = Some (v, r) \<longrightarrow> length r \<le> length s)"

text \<open>
  \<open>pattern.findall(content)\<close> for the marker pattern: the groups of the matches found
  from the left, each search starting where the last match ended.
\<close>

function findall_markers :: "string \<Rightarrow> string list" where
  "findall_markers s =
     (case match_marker s of
        Some (g, rest) \<Rightarrow> g # findall_markers rest
      | None \<Rightarrow> (case s of [] \<Rightarrow> [] | c # cs \<Rightarrow> findall_markers cs))"
  by pat_completeness auto

text \<open>
  \<^verbatim>\<open>re.sub(r"\\url\{.+?\}\{(.+?)\}", r"\1", chapter_content)\<close>: every match becomes its
  group 1; the text between matches is copied.
\<close>

function remove_links :: "string \<Rightarrow> string" where
  "remove_links s =
     (case match_url s of
        Some (g, rest) \<Rightarrow> g @ remove_links rest
      | None \<Rightarrow> (case s of [] \<Rightarrow> [] | c # cs \<Rightarrow> c # remove_links cs))"
  by pat_completeness auto

section \<open>Errors and the external collaborators\<close>

datatype error = IndexError | AttributeError | ExternalError string

text \<open>
  A parsed HTML node of BeautifulSoup: a \<open>Tag\<close> with its name, its attribute dictionary
  and its \<open>contents\<close>, or a \<open>NavigableString\<close>.
\<close>

datatype html = Tag string "(string \<times> string) list" "html list" | NavigableString string

text \<open>
  What the program calls and this repository does not define. Each is a function of its
  arguments: the build reads a fixed snapshot.
  \<^item> \<open>tag_str\<close>: \<open>str(tag)\<close>, the markup BeautifulSoup prints for a \<open>Tag\<close>;
  \<^item> \<open>urljoin\<close>: \<open>urllib.parse.urljoin(base, url)\<close>;
  \<^item> \<open>api_parse\<close>: the rendered page of a title,
    \<^verbatim>\<open>session.get(API_URL, params={"action": "parse", ...}).json()["parse"]["text"]["*"]\<close>,
    or the exception the request or the lookup raises;
  \<^item> \<open>find_table\<close>: \<^verbatim>\<open>str(BeautifulSoup(html_content, "html.parser").find("table"))\<close>;
  \<^item> \<open>convert_text\<close>: \<open>pypandoc.convert_text(source, to, format=format)\<close>, or the
    exception pandoc raises.
\<close>

record ext =
  tag_str :: "html \<Rightarrow> string"
  urljoin :: "string \<Rightarrow> string \<Rightarrow> string"
  api_parse :: "string \<Rightarrow> error + string"
  find_table :: "string \<Rightarrow> string"
  convert_text :: "string \<Rightarrow> string \<Rightarrow> string \<Rightarrow> error + string"

definition WIKI_BASE_URL :: string where
  "WIKI_BASE_URL = ''https://style.miraheze.org''"

definition CHAPTERS_DIR :: string where
  "CHAPTERS_DIR = ''LaTeX/chapters''"

section \<open>\<open>parse_list_items\<close>\<close>

text \<open>An entry of the outline: the dictionary \<open>parse_list_items\<close> builds.\<close>

datatype item =
  Item (title: string) (url: string) (hasLink: bool) (depth: int) (children: "item list")

text \<open>\<open>str(node)\<close>: a \<open>NavigableString\<close> is its own text.\<close>

fun py_str :: "ext \<Rightarrow> html \<Rightarrow> string" where
  "py_str x (NavigableString s) = s"
| "py_str x (Tag n a cs) = tag_str x (Tag n a cs)"

text \<open>
  \<open>tag.find(name)\<close> over the contents of a tag: the first descendant tag of that name in
  document order. \<open>None\<close> when there is none.
\<close>

fun find_tag :: "string \<Rightarrow> html list \<Rightarrow> html option" where
  "find_tag name [] = None"
| "find_tag name (NavigableString s # rest) = find_tag name rest"
| "find_tag name (Tag n a cs # rest) =
     (if n = name then Some (Tag n a cs)
      else case find_tag name cs of Some t \<Rightarrow> Some t | None \<Rightarrow> find_tag name rest)"

text \<open>\<open>tag.find_all(name, recursive=False)\<close>: the children that are tags of that name.\<close>

fun is_tag_named :: "string \<Rightarrow> html \<Rightarrow> bool" where
  "is_tag_named name (Tag n a cs) = (n = name)"
| "is_tag_named name (NavigableString s) = False"

definition find_all_children :: "string \<Rightarrow> html list \<Rightarrow> html list" where
  "find_all_children name cs = filter (is_tag_named name) cs"

text \<open>\<open>tag.get(key, default)\<close> on the attribute dictionary.\<close>

definition attr_get :: "(string \<times> string) list \<Rightarrow> string \<Rightarrow> string \<Rightarrow> string" where
  "attr_get attrs key dflt = (case map_of attrs key of Some v \<Rightarrow> v | None \<Rightarrow> dflt)"

text \<open>
  Lines 117 to 132, for one \<open>li\<close> with contents \<open>cs\<close>: the dictionary with no children yet.
  \<open>li.contents[0]\<close> raises \<open>IndexError\<close> on an item with no contents; \<open>link.get\<close>
  raises \<open>AttributeError\<close> when \<open>li.find("a")\<close> is \<open>None\<close>.
\<close>

definition li_item :: "ext \<Rightarrow> html list \<Rightarrow> int \<Rightarrow> error + item" where
  "li_item x cs d =
     (let link = find_tag ''a'' cs
      in case cs of
           [] \<Rightarrow> Inl IndexError
         | first # _ \<Rightarrow>
             (let content = py_str x first;
                  text = strip content
              in case link of
                   None \<Rightarrow> Inl AttributeError
                 | Some (NavigableString s) \<Rightarrow> Inl AttributeError
                 | Some (Tag n attrs kids) \<Rightarrow>
                     (let href = attr_get attrs ''href'' '''';
                          page_title = replace href ''_'' '' '';
                          has_link = (content = py_str x (Tag n attrs kids));
                          href = (if startswith href ''/'' then urljoin x WIKI_BASE_URL href
                                  else href)
                      in Inr (Item (if has_link then page_title else text)
                                   (if has_link then href else '''')
                                   has_link d []))))"

text \<open>
  \<open>parse_list_items\<close> and its loop over the \<open>li\<close> children. A string has neither
  \<open>find_all\<close> nor \<open>contents\<close>: \<open>AttributeError\<close>.
\<close>

function parse_list_items :: "ext \<Rightarrow> html \<Rightarrow> int \<Rightarrow> error + item list"
  and parse_lis :: "ext \<Rightarrow> html list \<Rightarrow> int \<Rightarrow> error + item list" where
  "parse_list_items x (NavigableString s) d = Inl AttributeError"
| "parse_list_items x (Tag n a cs) d = parse_lis x (find_all_children ''li'' cs) d"
| "parse_lis x [] d = Inr []"
| "parse_lis x (NavigableString s # lis) d = Inl AttributeError"
| "parse_lis x (Tag n a cs # lis) d =
     (case li_item x cs d of
        Inl e \<Rightarrow> Inl e
      | Inr item \<Rightarrow>
          (case (case find_tag ''ol'' cs of
                   None \<Rightarrow> Inr []
                 | Some nested_ol \<Rightarrow> parse_list_items x nested_ol (d + 1)) of
             Inl e \<Rightarrow> Inl e
           | Inr kids \<Rightarrow>
               (case parse_lis x lis d of
                  Inl e \<Rightarrow> Inl e
                | Inr items \<Rightarrow>
                    Inr (Item (title item) (url item) (hasLink item) (depth item) kids # items))))"
  by pat_completeness auto

section \<open>\<open>add_examples_to_content\<close>\<close>

text \<open>
  Lines 177 to 188 for one title: the page is fetched, its first table is printed and
  converted back to wiki markup.
\<close>

definition example_content :: "ext \<Rightarrow> string \<Rightarrow> error + string" where
  "example_content x example_title =
     (case api_parse x example_title of
        Inl e \<Rightarrow> Inl e
      | Inr html_content \<Rightarrow> convert_text x (find_table x html_content) ''mediawiki'' ''html'')"

text \<open>
  The loop over the matches. The matches were taken from the content as it was given; each
  replacement is made in the content as the earlier replacements left it, and looks for the
  marker rebuilt from the stripped title.
\<close>

fun expand_matches :: "ext \<Rightarrow> string list \<Rightarrow> string \<Rightarrow> error + string" where
  "expand_matches x [] content = Inr content"
| "expand_matches x (match # matches) content =
     (let example_title = strip match
      in case example_content x example_title of
           Inl e \<Rightarrow> Inl e
         | Inr ex \<Rightarrow>
             expand_matches x matches (replace content (''{{:'' @ example_title @ ''}}'') ex))"

definition add_examples_to_content :: "ext \<Rightarrow> string \<Rightarrow> error + string" where
  "add_examples_to_content x content = expand_matches x (findall_markers content) content"

section \<open>\<open>process_structure\<close>\<close>

text \<open>
  An element of the export with its \<open>text\<close> (\<open>None\<close> for an empty element), and a
  \<open>page\<close> element: \<open>page.find("mediawiki:title", namespace)\<close> and
  \<open>page.find(".//mediawiki:text", namespace)\<close>, each \<open>None\<close> when the page has no such
  element. The \<open>root\<close> is given as \<open>root.findall(".//mediawiki:page", namespace)\<close>.
\<close>

datatype elem = Elem (elem_text: "string option")

record page =
  title_elem :: "elem option"
  text_elem :: "elem option"

text \<open>
  What the build writes: the chapter files in the order they were opened for writing, each
  with the path and what it holds when it is closed, and the text written to \<open>file\<close>,
  the main document. Console output is not modelled.
\<close>

record build_state =
  chapters :: "(string \<times> string) list"
  main_tex :: string

datatype outcome = Done build_state | Raised error build_state

text \<open>\<open>xs[i]\<close> on a Python list: a negative index counts from the end.\<close>

definition py_index :: "'a list \<Rightarrow> int \<Rightarrow> error + 'a" where
  "py_index xs i =
     (if 0 \<le> i \<and> i < int (length xs) then Inr (xs ! nat i)
      else if i < 0 \<and> - int (length xs) \<le> i then Inr (xs ! nat (int (length xs) + i))
      else Inl IndexError)"

definition category :: "string list" where
  "category = [''part'', ''chapter'', ''chapter'']"

text \<open>
  The loop of lines 222 to 230 over the pages, with \<open>wiki_content\<close> as it stands: every
  page of that title overwrites it, and the loop does not stop at the first.
\<close>

fun find_wiki_content :: "ext \<Rightarrow> page list \<Rightarrow> string \<Rightarrow> string \<Rightarrow> error + string" where
  "find_wiki_content x [] item_title wiki_content = Inr wiki_content"
| "find_wiki_content x (p # pages) item_title wiki_content =
     (case title_elem p of
        None \<Rightarrow> Inl AttributeError
      | Some t \<Rightarrow>
          if elem_text t = Some item_title
          then (case text_elem p of
                  None \<Rightarrow> Inl AttributeError
                | Some e \<Rightarrow>
                    (case elem_text e of
                       None \<Rightarrow> Inl AttributeError
                     | Some body \<Rightarrow>
                         (case add_examples_to_content x (strip body) of
                            Inl err \<Rightarrow> Inl err
                          | Inr wiki_content' \<Rightarrow>
                              find_wiki_content x pages item_title wiki_content')))
          else find_wiki_content x pages item_title wiki_content)"

definition LONGTABLE_OLD :: string where
  "LONGTABLE_OLD = BS # ''begin{longtable}[]{@'' @ ''{}ll@'' @ ''{}}''"

definition LONGTABLE_NEW :: string where
  "LONGTABLE_NEW =
     BS # ''begin{longtable}[]{|p{0.45'' @ BS # ''textwidth}|p{0.45'' @ BS # ''textwidth}}''"

definition LONGTABLE_RULES :: string where
  "LONGTABLE_RULES =
     BS # ''toprule'' @ BS # ''noalign{}'' @ NL # BS # ''endhead'' @ NL #
     BS # ''bottomrule'' @ BS # ''noalign{}'' @ NL # BS # ''endlastfoot''"

text \<open>Lines 216 to 252: the body of the chapter of one item.\<close>

definition chapter_content :: "ext \<Rightarrow> page list \<Rightarrow> item \<Rightarrow> error + string" where
  "chapter_content x root item =
     (case (if hasLink item
            then (case find_wiki_content x root (title item) '''' of
                    Inl e \<Rightarrow> Inl e
                  | Inr wiki_content \<Rightarrow>
                      (case convert_text x wiki_content ''latex'' ''mediawiki'' of
                         Inl e \<Rightarrow> Inl e
                       | Inr latex \<Rightarrow>
                           Inr (replace (replace latex LONGTABLE_OLD LONGTABLE_NEW)
                                  LONGTABLE_RULES '''')))
            else Inr '''') of
        Inl e \<Rightarrow> Inl e
      | Inr c \<Rightarrow> Inr (remove_links c))"

definition chapter_path :: "item \<Rightarrow> string" where
  "chapter_path item = CHAPTERS_DIR @ ''/'' @ safe_title (title item) @ ''.tex''"

text \<open>
  Lines 254 to 257: the file is opened for writing, which creates it empty, and the
  heading and the body are written. When \<open>category[depth]\<close> raises, the file stays empty.
\<close>

definition write_chapter :: "item \<Rightarrow> string \<Rightarrow> build_state \<Rightarrow> outcome" where
  "write_chapter item body st =
     (case py_index category (depth item) of
        Inl e \<Rightarrow> Raised e (st\<lparr>chapters := chapters st @ [(chapter_path item, '''')]\<rparr>)
      | Inr cat \<Rightarrow>
          Done (st\<lparr>chapters := chapters st @
                  [(chapter_path item,
                    BS # cat @ ''{'' @ title item @ ''}'' @ [NL, NL] @
                    replace body ''subsection'' ''section'')]\<rparr>))"

text \<open>Line 259: the line written to the main document.\<close>

definition include_line :: "item \<Rightarrow> string" where
  "include_line item =
     str_times ''  '' (depth item) @ BS # ''include{chapters/'' @ safe_title (title item) @ ''}'' @ [NL]"

fun process_structure :: "ext \<Rightarrow> page list \<Rightarrow> item list \<Rightarrow> build_state \<Rightarrow> outcome" where
  "process_structure x root [] st = Done st"
| "process_structure x root (Item t u h d kids # structure) st =
     (let item = Item t u h d kids
      in if startswith (title item) '':Rummad:'' then process_structure x root structure st
         else
           (case chapter_content x root item of
              Inl e \<Rightarrow> Raised e st
            | Inr body \<Rightarrow>
                (case write_chapter item body st of
                   Raised e st' \<Rightarrow> Raised e st'
                 | Done st' \<Rightarrow>
                     (let st'' = st'\<lparr>main_tex := main_tex st' @ include_line item\<rparr>
                      in if kids \<noteq> []
                         then (case process_structure x root kids st'' of
                                 Raised e s \<Rightarrow> Raised e s
                               | Done s \<Rightarrow> process_structure x root structure s)
                         else process_structure x root structure st''))))"

section \<open>Notions of the specification\<close>

text \<open>
  The pre-order traversal the specification describes: a node, then its descendants, then
  its later siblings, without the category nodes and what is below them.
\<close>

fun rendered :: "item list \<Rightarrow> item list" where
  "rendered [] = []"
| "rendered (Item t u h d kids # rest) =
     (if startswith t '':Rummad:'' then rendered rest
      else Item t u h d kids # rendered kids @ rendered rest)"



text \<open>\<open>sub in s\<close>: the string \<open>sub\<close> occurs in \<open>s\<close>.\<close>

fun contains :: "string \<Rightarrow> string \<Rightarrow> bool" where
  "contains [] sub = (sub = [])"
| "contains (c # cs) sub = (startswith (c # cs) sub \<or> contains cs sub)"

text \<open>
  Stand-ins for the collaborators, to run the model on concrete inputs: a tag prints as its
  name in angle brackets, a fetched page is its own first table, and conversion changes
  nothing. The second one returns a transclusion marker as the first table of every page.
\<close>

definition stub_ext :: ext where
  "stub_ext =
     \<lparr>tag_str = (\<lambda>h. case h of Tag n a cs \<Rightarrow> ''<'' @ n @ ''>'' | NavigableString s \<Rightarrow> s),
      urljoin = (\<lambda>base u. base @ u),
      api_parse = (\<lambda>t. Inr t),
      find_table = (\<lambda>h. h),
      convert_text = (\<lambda>s to fmt. Inr s)\<rparr>"

definition marker_ext :: ext where
  "marker_ext = stub_ext\<lparr>find_table := (\<lambda>h. ''{{:Other}}'')\<rparr>"

definition empty_state :: build_state where
  "empty_state = \<lparr>chapters = [], main_tex = []\<rparr>"




text \<open>
  A body read as a sequence of texts and markers, the body it stands for, and the body with
  every marker replaced by the fragment fetched for its title.
\<close>

datatype piece = Text string | Marker string

fun render :: "piece list \<Rightarrow> string" where
  "render [] = []"
| "render (Text s # ps) = s @ render ps"
| "render (Marker t # ps) = ''{{:'' @ t @ ''}}'' @ render ps"

definition fragment :: "ext \<Rightarrow> string \<Rightarrow> string" where
  "fragment x t = (case example_content x t of Inr f \<Rightarrow> f | Inl e \<Rightarrow> [])"

fun resolved :: "ext \<Rightarrow> piece list \<Rightarrow> string" where
  "resolved x [] = []"
| "resolved x (Text s # ps) = s @ resolved x ps"
| "resolved x (Marker t # ps) = fragment x t @ resolved x ps"

text \<open>
  A text that neither holds the start of a marker nor can begin one with what follows it:
  \<open>{{:\<close> does not occur in it and it does not end with an opening brace.
\<close>

definition plain :: "string \<Rightarrow> bool" where
  "plain s = (\<not> contains s ''{{:'' \<and> (s = [] \<or> last s \<noteq> CHR ''{''))"

text \<open>
  A title as the pattern reads it back and as the loop looks for it again: not empty, with
  no brace and no newline, and with no whitespace at its ends.
\<close>

definition good_title :: "string \<Rightarrow> bool" where
  "good_title t =
     (t \<noteq> [] \<and> CHR ''{'' \<notin> set t \<and> CHR ''}'' \<notin> set t \<and> NL \<notin> set t \<and> strip t = t)"

text \<open>
  A piece the single pass resolves: a plain text, or a marker with a good title for which
  a plain fragment is fetched.
\<close>

fun resolvable :: "ext \<Rightarrow> piece \<Rightarrow> bool" where
  "resolvable x (Text s) = plain s"
| "resolvable x (Marker t) =
     (good_title t \<and> (case example_content x t of Inr f \<Rightarrow> plain f | Inl e \<Rightarrow> False))"

text \<open>A converter that ends its output with a newline, as pandoc does.\<close>

definition newline_ext :: ext where
  "newline_ext = stub_ext\<lparr>convert_text := (\<lambda>s to fmt. Inr (s @ [NL]))\<rparr>"

text \<open>
  For the proofs about the loop: the titles of the markers of a body in their order, a
  piece as the scan and the replacement need it, and a body in which the markers of the
  titles \<open>ms\<close> have been replaced already.
\<close>

fun titles :: "piece list \<Rightarrow> string list" where
  "titles [] = []"
| "titles (Text s # ps) = titles ps"
| "titles (Marker t # ps) = t # titles ps"

fun scannable :: "piece \<Rightarrow> bool" where
  "scannable (Text s) = plain s"
| "scannable (Marker t) = good_title t"

fun fill :: "ext \<Rightarrow> string list \<Rightarrow> piece \<Rightarrow> piece" where
  "fill x ms (Text s) = Text s"
| "fill x ms (Marker t) = (if t \<in> set ms then Text (fragment x t) else Marker t)"

text \<open>
  An outline nested four levels deep,
  \<^verbatim>\<open><ol><li><a href="A"></a><ol><li><a href="B"></a><ol><li><a href="C"></a>
  <ol><li><a href="D"></a></li></ol></li></ol></li></ol></li></ol>\<close>, and its tree.
\<close>

definition deep_outline :: html where
  "deep_outline =
     Tag ''ol'' [] [Tag ''li'' []
       [Tag ''a'' [(''href'', ''A'')] [],
        Tag ''ol'' [] [Tag ''li'' []
          [Tag ''a'' [(''href'', ''B'')] [],
           Tag ''ol'' [] [Tag ''li'' []
             [Tag ''a'' [(''href'', ''C'')] [],
              Tag ''ol'' [] [Tag ''li'' [] [Tag ''a'' [(''href'', ''D'')] []]]]]]]]]"

definition deep_tree :: "item list" where
  "deep_tree =
     [Item ''A'' ''A'' True 0 [Item ''B'' ''B'' True 1 [Item ''C'' ''C'' True 2
        [Item ''D'' ''D'' True 3 []]]]]"

section \<open>Termination of the scans and of the parser\<close>

lemma startswith_length: "startswith s p \<Longrightarrow> length p \<le> length s"
  unfolding startswith_def by (drule arg_cong[where f = length]) simp

lemma shrinking_accept: "shrinking accept"
  by (simp add: shrinking_def accept_def)

lemma shrinkingD: "shrinking k \<Longrightarrow> k s = Some (v, r) \<Longrightarrow> length r \<le> length s"
  unfolding shrinking_def by blast

lemma lit_len:
  assumes "shrinking k" and "lit p k s = Some (v, r)"
  shows "length r + length p \<le> length s"
proof -
  from assms(2) have p: "startswith s p" and k: "k (drop (length p) s) = Some (v, r)"
    by (auto simp: lit_def split: if_splits)
  from shrinkingD[OF assms(1) k] have "length r \<le> length s - length p"
    by simp
  with startswith_length[OF p] show ?thesis by simp
qed

lemma shrinking_lit: "shrinking k \<Longrightarrow> shrinking (lit p k)"
  unfolding shrinking_def[of "lit p k"] using lit_len[of k p] by fastforce

lemma lazy_more_len:
  assumes "shrinking k"
  shows "lazy_more k g s = Some (v, r) \<Longrightarrow> length r \<le> length s"
proof (induction s arbitrary: g)
  case Nil
  then obtain a where "k [] = Some (a, r)" by (auto split: option.splits)
  from shrinkingD[OF assms this] show ?case by simp
next
  case (Cons c cs)
  show ?case
  proof (cases "k (c # cs)")
    case None
    with Cons.prems have "lazy_more k (g @ [c]) cs = Some (v, r)"
      by (simp split: if_splits)
    from Cons.IH[OF this] show ?thesis by simp
  next
    case (Some a)
    with Cons.prems obtain a' where "k (c # cs) = Some (a', r)" by (cases a) auto
    from shrinkingD[OF assms this] show ?thesis .
  qed
qed

lemma dot_plus_lazy_len:
  assumes "shrinking k" and "dot_plus_lazy k s = Some (v, r)"
  shows "length r < length s"
proof (cases s)
  case Nil
  with assms(2) show ?thesis by simp
next
  case (Cons c cs)
  with assms(2) have "lazy_more k [c] cs = Some (v, r)" by (simp split: if_splits)
  from lazy_more_len[OF assms(1) this] Cons show ?thesis by simp
qed

lemma shrinking_dot_plus_lazy: "shrinking k \<Longrightarrow> shrinking (dot_plus_lazy k)"
  unfolding shrinking_def[of "dot_plus_lazy k"] using dot_plus_lazy_len[of k] by (fastforce simp: less_imp_le)

lemma match_marker_len: "match_marker s = Some (g, r) \<Longrightarrow> length r < length s"
proof -
  assume "match_marker s = Some (g, r)"
  then obtain u where m: "lit ''{{:'' (dot_plus_lazy (lit ''}}'' accept)) s = Some ((g, u), r)"
    by (auto simp: match_marker_def split: option.splits)
  have "shrinking (dot_plus_lazy (lit ''}}'' accept))"
    by (intro shrinking_dot_plus_lazy shrinking_lit shrinking_accept)
  from lit_len[OF this m] show ?thesis by simp
qed

lemma match_url_len: "match_url s = Some (g, r) \<Longrightarrow> length r < length s"
proof -
  assume "match_url s = Some (g, r)"
  then obtain u w where m: "lit (BS # ''url{'')
             (dot_plus_lazy (lit ''}{'' (dot_plus_lazy (lit ''}'' accept)))) s = Some ((u, g, w), r)"
    by (auto simp: match_url_def split: option.splits)
  have "shrinking (dot_plus_lazy (lit ''}{'' (dot_plus_lazy (lit ''}'' accept))))"
    by (intro shrinking_dot_plus_lazy shrinking_lit shrinking_accept)
  from lit_len[OF this m] show ?thesis by simp
qed

termination findall_markers
  by (relation "measure length") (auto dest: match_marker_len)

termination remove_links
  by (relation "measure length") (auto dest: match_url_len)

declare findall_markers.simps [simp del]
declare remove_links.simps [simp del]

lemma find_tag_size: "find_tag name cs = Some t \<Longrightarrow> size t \<le> size_list size cs"
  by (induction name cs rule: find_tag.induct) (auto split: if_splits option.splits)

lemma size_find_all_children: "size_list size (find_all_children name cs) \<le> size_list size cs"
  unfolding find_all_children_def by (induction cs) auto

termination parse_list_items
  apply (relation "measure (\<lambda>v. case v of Inl (x, h, d) \<Rightarrow> 2 * size h
                                   | Inr (x, hs, d) \<Rightarrow> 2 * size_list size hs + 1)")
      apply simp
  subgoal for x n a cs d
    using size_find_all_children[of "''li''" cs] by simp
  subgoal for x n a cs lis d item nested
    by (drule find_tag_size) simp
  subgoal by simp
  done

section \<open>The filesystem-safe identifier: what it is made of\<close>

lemma underscore_word: "re_word CHR ''_''"
  by (simp add: re_word_def)

lemma underscore_not_sep: "\<not> sep_char CHR ''_''"
  by (simp add: sep_char_def re_space_def isspace_def)

lemma kept_not_sep_word: "kept_char c \<Longrightarrow> \<not> sep_char c \<Longrightarrow> re_word c"
  by (auto simp: kept_char_def sep_char_def)

lemma collapse_runs_chars:
  "c \<in> set (collapse_runs s) \<Longrightarrow> (c \<in> set s \<and> \<not> sep_char c) \<or> c = CHR ''_''"
proof (induction s arbitrary: c rule: collapse_runs.induct)
  case 1
  then show ?case by simp
next
  case (2 d ds)
  show ?case
  proof (cases "sep_char d")
    case True
    with 2 have "c = CHR ''_'' \<or> c \<in> set (collapse_runs (dropWhile sep_char ds))" by auto
    then show ?thesis
    proof
      assume "c = CHR ''_''" then show ?thesis by simp
    next
      assume "c \<in> set (collapse_runs (dropWhile sep_char ds))"
      from "2.IH"(1)[OF True this] show ?thesis
        by (auto dest: set_dropWhileD)
    qed
  next
    case False
    with 2 show ?thesis by auto
  qed
qed

lemma collapse_runs_id: "\<forall>c \<in> set s. \<not> sep_char c \<Longrightarrow> collapse_runs s = s"
  by (induction s) auto

lemma safe_title_not_sep: "c \<in> set (safe_title t) \<Longrightarrow> \<not> sep_char c"
  using collapse_runs_chars[of c "strip_unsafe t"] underscore_not_sep
  by (auto simp: safe_title_def)

lemma safe_title_word: "c \<in> set (safe_title t) \<Longrightarrow> re_word c"
  using collapse_runs_chars[of c "strip_unsafe t"] underscore_word kept_not_sep_word
  by (auto simp: safe_title_def strip_unsafe_def)

text \<open>
  C9. Deriving the identifier from an identifier changes nothing: the first derivation
  leaves only word characters, none of which the two substitutions touch.
\<close>

theorem safe_title_idempotent: "safe_title (safe_title t) = safe_title t"
proof -
  have "strip_unsafe (safe_title t) = safe_title t"
    unfolding strip_unsafe_def
    by (rule filter_True) (auto dest: safe_title_word simp: kept_char_def)
  moreover have "collapse_runs (safe_title t) = safe_title t"
    by (rule collapse_runs_id) (auto dest: safe_title_not_sep)
  ultimately show ?thesis by (simp add: safe_title_def)
qed

text \<open>
  C10. Every character of the identifier is a word character; none is whitespace, a
  hyphen or a slash, so the file name built from it has no path separator.
\<close>

theorem safe_title_word_chars:
  "(\<forall>c \<in> set (safe_title t). re_word c \<and> \<not> re_space c \<and> c \<noteq> CHR ''-'' \<and> c \<noteq> CHR ''/'')
   \<and> CHR ''/'' \<notin> set (safe_title t @ ''.tex'')"
proof -
  have slash: "\<not> re_word CHR ''/''"
    by (simp add: re_word_def isalnum_def)
  have "re_word c \<and> \<not> re_space c \<and> c \<noteq> CHR ''-'' \<and> c \<noteq> CHR ''/''"
    if "c \<in> set (safe_title t)" for c
    using safe_title_word[OF that] safe_title_not_sep[OF that] slash
    by (auto simp: sep_char_def)
  then show ?thesis by auto
qed

theorem safe_title_word_chars_witness:
  "safe_title ''a - b/c.d'' = ''a_bcd'' \<and> CHR ''_'' \<in> set (safe_title ''a - b/c.d'')
   \<and> re_word CHR ''_'' \<and> \<not> re_space CHR ''_'' \<and> CHR ''/'' \<notin> set (safe_title ''a - b/c.d'' @ ''.tex'')"
proof -
  have e: "safe_title ''a - b/c.d'' = ''a_bcd''"
    by (simp add: safe_title_def strip_unsafe_def kept_char_def sep_char_def re_word_def
        re_space_def isspace_def isalnum_def)
  then have m: "CHR ''_'' \<in> set (safe_title ''a - b/c.d'')" by simp
  from safe_title_word_chars[of "''a - b/c.d''"] m e show ?thesis by blast
qed

section \<open>The tree renderer\<close>

lemma process_structure_Cons:
  "process_structure x root (item # structure) st =
     (if startswith (title item) '':Rummad:'' then process_structure x root structure st
      else
        (case chapter_content x root item of
           Inl e \<Rightarrow> Raised e st
         | Inr body \<Rightarrow>
             (case write_chapter item body st of
                Raised e st' \<Rightarrow> Raised e st'
              | Done st' \<Rightarrow>
                  (case process_structure x root (children item)
                          (st'\<lparr>main_tex := main_tex st' @ include_line item\<rparr>) of
                     Raised e s \<Rightarrow> Raised e s
                   | Done s \<Rightarrow> process_structure x root structure s))))"
  by (cases item) (simp add: Let_def split: sum.splits outcome.splits)

declare process_structure.simps(2) [simp del]

lemma write_chapter_Done:
  "write_chapter item body st = Done st' \<Longrightarrow>
     main_tex st' = main_tex st \<and>
     (\<exists>written. chapters st' = chapters st @ [(chapter_path item, written)])"
  by (auto simp: write_chapter_def split: sum.splits)

text \<open>
  C5. A node whose title starts with the category prefix is passed over: the build goes on
  with the next sibling from the same state, so no file is written for it, no line is
  added to the main document and its children are not visited.
\<close>

theorem category_node_skipped:
  "startswith (title item) '':Rummad:'' \<Longrightarrow>
     process_structure x root (item # structure) st = process_structure x root structure st"
  by (simp add: process_structure_Cons)

theorem category_node_skipped_witness:
  "startswith (title (Item '':Rummad:Skridaozerien'' [] True 0 [Item ''Below'' [] False 1 []]))
     '':Rummad:'' \<and>
   process_structure stub_ext []
     [Item '':Rummad:Skridaozerien'' [] True 0 [Item ''Below'' [] False 1 []]] empty_state =
   Done empty_state"
proof -
  have s: "startswith (title (Item '':Rummad:Skridaozerien'' [] True 0 [Item ''Below'' [] False 1 []]))
     '':Rummad:''"
    by (simp add: startswith_def)
  from category_node_skipped[OF s, of stub_ext "[]" "[]" empty_state] s show ?thesis
    by simp
qed

lemma process_structure_trace:
  "process_structure x root items st = Done st' \<Longrightarrow>
     main_tex st' = main_tex st @ concat (map include_line (rendered items)) \<and>
     map fst (chapters st') = map fst (chapters st) @ map chapter_path (rendered items)"
proof (induction items arbitrary: st st' rule: rendered.induct)
  case 1
  then show ?case by simp
next
  case (2 t u h d kids rest)
  let ?item = "Item t u h d kids"
  show ?case
  proof (cases "startswith t '':Rummad:''")
    case True
    with "2.prems" have "process_structure x root rest st = Done st'"
      by (simp add: process_structure_Cons)
    from "2.IH"(1)[OF True this] True show ?thesis by simp
  next
    case False
    with "2.prems" obtain body s1 s2 where
      w: "write_chapter ?item body st = Done s1" and
      k: "process_structure x root kids (s1\<lparr>main_tex := main_tex s1 @ include_line ?item\<rparr>) = Done s2" and
      r: "process_structure x root rest s2 = Done st'"
      by (auto simp: process_structure_Cons split: sum.splits outcome.splits)
    from write_chapter_Done[OF w] obtain written where
      m1: "main_tex s1 = main_tex st" and
      c1: "chapters s1 = chapters st @ [(chapter_path ?item, written)]" by blast
    from "2.IH"(2)[OF False k] "2.IH"(3)[OF False r] m1 c1 False
    show ?thesis by simp
  qed
qed

lemma write_chapter_Raised:
  "write_chapter item body st = Raised e st' \<Longrightarrow> main_tex st' = main_tex st"
  by (auto simp: write_chapter_def split: sum.splits)

text \<open>
  When the build stops with an exception, the lines added so far are those of the rendered
  nodes that come first in pre-order.
\<close>

lemma manifest_prefix_on_error:
  "process_structure x root items st = Raised e st' \<Longrightarrow>
     \<exists>ns later. rendered items = ns @ later \<and>
       main_tex st' = main_tex st @ concat (map include_line ns)"
proof (induction items arbitrary: st st' rule: rendered.induct)
  case 1
  then show ?case by simp
next
  case (2 t u h d kids rest)
  let ?item = "Item t u h d kids"
  show ?case
  proof (cases "startswith t '':Rummad:''")
    case True
    with "2.prems" have "process_structure x root rest st = Raised e st'"
      by (simp add: process_structure_Cons)
    from "2.IH"(1)[OF True this] True show ?thesis by simp
  next
    case False
    show ?thesis
    proof (cases "chapter_content x root ?item")
      case (Inl err)
      with False "2.prems" have "st' = st" by (simp add: process_structure_Cons)
      then show ?thesis by (intro exI[of _ "[]"] exI[of _ "rendered (?item # rest)"]) simp
    next
      case (Inr body)
      show ?thesis
      proof (cases "write_chapter ?item body st")
        case (Raised err s1)
        with False Inr "2.prems" have "st' = s1" by (simp add: process_structure_Cons)
        with write_chapter_Raised[OF Raised] show ?thesis
          by (intro exI[of _ "[]"] exI[of _ "rendered (?item # rest)"]) simp
      next
        case (Done s1)
        let ?s = "s1\<lparr>main_tex := main_tex s1 @ include_line ?item\<rparr>"
        from write_chapter_Done[OF Done] have m1: "main_tex s1 = main_tex st" by blast
        show ?thesis
        proof (cases "process_structure x root kids ?s")
          case (Raised err s2)
          with False Inr Done "2.prems" have "process_structure x root kids ?s = Raised e st'"
            by (simp add: process_structure_Cons)
          from "2.IH"(2)[OF False this] obtain ns later where
            "rendered kids = ns @ later" "main_tex st' = main_tex ?s @ concat (map include_line ns)"
            by blast
          with m1 False show ?thesis
            by (intro exI[of _ "?item # ns"] exI[of _ "later @ rendered rest"]) simp
        next
          case d2: (Done s2)
          with False Inr Done "2.prems" have r: "process_structure x root rest s2 = Raised e st'"
            by (simp add: process_structure_Cons)
          from process_structure_trace[OF d2] have
            k: "main_tex s2 = main_tex ?s @ concat (map include_line (rendered kids))" by blast
          from "2.IH"(3)[OF False r] obtain ns later where
            "rendered rest = ns @ later" "main_tex st' = main_tex s2 @ concat (map include_line ns)"
            by blast
          with m1 k False show ?thesis
            by (intro exI[of _ "?item # rendered kids @ ns"] exI[of _ later]) simp
        qed
      qed
    qed
  qed
qed






lemma safe_title_examples:
  "safe_title ''A'' = ''A''" "safe_title ''B'' = ''B''" "safe_title ''C'' = ''C''"
  "safe_title ''D'' = ''D''" "safe_title ''Deep'' = ''Deep''" "safe_title ''Intro'' = ''Intro''"
  "safe_title ''Missing'' = ''Missing''"
  by (simp_all add: safe_title_def strip_unsafe_def kept_char_def sep_char_def re_word_def
      re_space_def isspace_def isalnum_def)



text \<open>
  Whenever a heading is written for a node of depth 0 or more, it is the \<open>part\<close> command
  at depth 0 and the \<open>chapter\<close> command below, followed by the title in braces, an empty
  line and the body.
\<close>

lemma heading_of_rendered_node:
  "0 \<le> depth item \<Longrightarrow> write_chapter item body st = Done st' \<Longrightarrow>
     st' = st\<lparr>chapters := chapters st @
             [(chapter_path item,
               BS # (if depth item = 0 then ''part'' else ''chapter'') @ ''{'' @ title item @
               ''}'' @ [NL, NL] @ replace body ''subsection'' ''section'')]\<rparr>"
proof -
  assume d: "0 \<le> depth item" and w: "write_chapter item body st = Done st'"
  from d consider "depth item = 0" | "depth item = 1" | "depth item = 2" | "3 \<le> depth item"
    by linarith
  then show ?thesis
  proof cases
    case 1
    with w show ?thesis by (simp add: write_chapter_def py_index_def category_def)
  next
    case 2
    with w show ?thesis by (simp add: write_chapter_def py_index_def category_def)
  next
    case 3
    with w show ?thesis by (simp add: write_chapter_def py_index_def category_def)
  next
    case 4
    with w show ?thesis by (simp add: write_chapter_def py_index_def category_def)
  qed
qed

text \<open>
  C4. A node of depth 1 or more is to get the \<open>chapter\<close> heading, but the heading is looked
  up in a table of three entries: for the node of depth 3 that \<open>parse_list_items\<close> builds
  from an outline nested four levels deep, \<open>category[depth]\<close> raises \<open>IndexError\<close>. The
  build stops there; the three nodes above were written, and the file of the fourth,
  already opened, stays empty with no heading and no line in the main document.
\<close>

theorem heading_depth_three_raises:
  "parse_list_items stub_ext deep_outline 0 = Inr deep_tree \<and>
   process_structure stub_ext [] deep_tree empty_state =
     Raised IndexError
       \<lparr>chapters =
          [(''LaTeX/chapters/A.tex'', BS # ''part{A}'' @ [NL, NL]),
           (''LaTeX/chapters/B.tex'', BS # ''chapter{B}'' @ [NL, NL]),
           (''LaTeX/chapters/C.tex'', BS # ''chapter{C}'' @ [NL, NL]),
           (''LaTeX/chapters/D.tex'', [])],
        main_tex =
          BS # ''include{chapters/A}'' @ NL # ''  '' @ BS # ''include{chapters/B}'' @ NL #
          ''    '' @ BS # ''include{chapters/C}'' @ [NL]\<rparr>"
  by code_simp

lemma find_wiki_content_absent:
  "\<forall>p \<in> set root. \<exists>t. title_elem p = Some t \<and> elem_text t \<noteq> Some item_title \<Longrightarrow>
     find_wiki_content x root item_title wiki_content = Inr wiki_content"
  by (induction root) auto

text \<open>
  C6, as amended. For a linked node whose title no page of the export has (every page
  having a title element), the lookup raises nothing and the text given to the converter
  is the empty text: the body is what the converter returns for it, post-processed, which
  need not be the empty string. When the node is rendered, that is when it is not a
  category node and its depth is 0, 1 or 2, its file is written with the heading and that
  body, its line is added to the main document and the build goes on with its children
  and then its siblings.
\<close>

theorem missing_page_body:
  assumes "hasLink item"
    and "\<forall>p \<in> set root. \<exists>t. title_elem p = Some t \<and> elem_text t \<noteq> Some (title item)"
  shows "chapter_content x root item =
      (case convert_text x [] ''latex'' ''mediawiki'' of
         Inl e \<Rightarrow> Inl e
       | Inr latex \<Rightarrow>
           Inr (remove_links
                  (replace (replace latex LONGTABLE_OLD LONGTABLE_NEW) LONGTABLE_RULES []))) \<and>
    (chapter_content x root item = Inr body \<and> \<not> startswith (title item) '':Rummad:'' \<and>
     0 \<le> depth item \<and> depth item \<le> 2 \<longrightarrow>
       process_structure x root (item # structure) st =
         (case process_structure x root (children item)
                 (st\<lparr>chapters := chapters st @
                        [(chapter_path item,
                          BS # category ! nat (depth item) @ ''{'' @ title item @ ''}'' @
                          [NL, NL] @ replace body ''subsection'' ''section'')],
                     main_tex := main_tex st @ include_line item\<rparr>) of
            Raised e s \<Rightarrow> Raised e s
          | Done s \<Rightarrow> process_structure x root structure s))"
proof -
  have content: "chapter_content x root item =
      (case convert_text x [] ''latex'' ''mediawiki'' of
         Inl e \<Rightarrow> Inl e
       | Inr latex \<Rightarrow>
           Inr (remove_links
                  (replace (replace latex LONGTABLE_OLD LONGTABLE_NEW) LONGTABLE_RULES [])))"
    using assms
    by (simp add: chapter_content_def find_wiki_content_absent split: sum.splits)
  have "process_structure x root (item # structure) st =
         (case process_structure x root (children item)
                 (st\<lparr>chapters := chapters st @
                        [(chapter_path item,
                          BS # category ! nat (depth item) @ ''{'' @ title item @ ''}'' @
                          [NL, NL] @ replace body ''subsection'' ''section'')],
                     main_tex := main_tex st @ include_line item\<rparr>) of
            Raised e s \<Rightarrow> Raised e s
          | Done s \<Rightarrow> process_structure x root structure s)"
    if "chapter_content x root item = Inr body" "\<not> startswith (title item) '':Rummad:''"
      "0 \<le> depth item" "depth item \<le> 2"
    using that
    by (simp add: process_structure_Cons write_chapter_def py_index_def category_def)
  with content show ?thesis by blast
qed

theorem missing_page_body_witness:
  "hasLink (Item ''Missing'' ''Missing'' True 1 []) \<and>
   title_elem \<lparr>title_elem = Some (Elem (Some ''Other'')), text_elem = Some (Elem (Some ''text''))\<rparr> =
     Some (Elem (Some ''Other'')) \<and>
   elem_text (Elem (Some ''Other'')) \<noteq> Some (title (Item ''Missing'' ''Missing'' True 1 [])) \<and>
   chapter_content newline_ext
     [\<lparr>title_elem = Some (Elem (Some ''Other'')), text_elem = Some (Elem (Some ''text''))\<rparr>]
     (Item ''Missing'' ''Missing'' True 1 []) = Inr [NL] \<and>
   process_structure newline_ext
     [\<lparr>title_elem = Some (Elem (Some ''Other'')), text_elem = Some (Elem (Some ''text''))\<rparr>]
     [Item ''Missing'' ''Missing'' True 1 []] empty_state =
   Done \<lparr>chapters = [(''LaTeX/chapters/Missing.tex'', BS # ''chapter{Missing}'' @ [NL, NL, NL])],
         main_tex = ''  '' @ BS # ''include{chapters/Missing}'' @ [NL]\<rparr>"
proof -
  let ?root = "[\<lparr>title_elem = Some (Elem (Some ''Other'')), text_elem = Some (Elem (Some ''text''))\<rparr>]"
  let ?item = "Item ''Missing'' ''Missing'' True 1 []"
  have h: "hasLink ?item" by simp
  have a: "\<forall>p \<in> set ?root. \<exists>t. title_elem p = Some t \<and> elem_text t \<noteq> Some (title ?item)"
    by simp
  have c: "(case convert_text newline_ext [] ''latex'' ''mediawiki'' of
         Inl e \<Rightarrow> Inl e
       | Inr latex \<Rightarrow>
           Inr (remove_links
                  (replace (replace latex LONGTABLE_OLD LONGTABLE_NEW) LONGTABLE_RULES []))) =
       Inr [NL]"
    by code_simp
  from missing_page_body[OF h a, of newline_ext "[NL]" "[]" empty_state] c
  have b: "chapter_content newline_ext ?root ?item = Inr [NL]" by simp
  have r: "replace [NL] ''subsection'' ''section'' = [NL]" by code_simp
  from missing_page_body[OF h a, of newline_ext "[NL]" "[]" empty_state] b r
  have "process_structure newline_ext ?root [?item] empty_state =
   Done \<lparr>chapters = [(''LaTeX/chapters/Missing.tex'', BS # ''chapter{Missing}'' @ [NL, NL, NL])],
         main_tex = ''  '' @ BS # ''include{chapters/Missing}'' @ [NL]\<rparr>"
    by (simp add: startswith_def empty_state_def chapter_path_def CHAPTERS_DIR_def
        safe_title_examples include_line_def str_times_def category_def)
  with h b show ?thesis by simp
qed

text \<open>
  The claim as it was stated fails with a converter that ends its output with a newline:
  the title is absent from the (empty) export, and the body written after the heading is
  a newline, not the empty text.
\<close>

theorem missing_page_newline_counterexample:
  "hasLink (Item ''Missing'' ''Missing'' True 1 []) \<and>
   chapter_content newline_ext [] (Item ''Missing'' ''Missing'' True 1 []) = Inr [NL] \<and>
   process_structure newline_ext [] [Item ''Missing'' ''Missing'' True 1 []] empty_state =
     Done \<lparr>chapters = [(''LaTeX/chapters/Missing.tex'', BS # ''chapter{Missing}'' @ [NL, NL, NL])],
           main_tex = ''  '' @ BS # ''include{chapters/Missing}'' @ [NL]\<rparr>"
  by code_simp

section \<open>The outline parser\<close>







text \<open>
  C7. A list item that is plain text, with no link in it, is not turned into a node:
  \<open>li.find("a")\<close> is \<open>None\<close> and \<open>link.get\<close> raises \<open>AttributeError\<close>.
\<close>

theorem plain_text_item_raises:
  "parse_list_items x (Tag ''ol'' [] [Tag ''li'' [] [NavigableString ''Intro'']]) 0 =
     Inl AttributeError"
  by (simp add: find_all_children_def li_item_def)




section \<open>The transclusion resolver\<close>

lemma startswith_Nil [simp]: "startswith s []" "\<not> startswith [] (p # ps)"
  by (simp_all add: startswith_def)

lemma startswith_Cons [simp]: "startswith (c # cs) (p # ps) = (c = p \<and> startswith cs ps)"
  by (simp add: startswith_def)

lemma startswith_append [simp]: "startswith (p @ s) p"
  by (simp add: startswith_def)

lemma match_marker_Nil: "match_marker [] = None"
  by (simp add: match_marker_def lit_def)

lemma findall_markers_Nil: "findall_markers [] = []"
  by (simp add: findall_markers.simps match_marker_Nil)

lemma lazy_more_to_close:
  "CHR ''}'' \<notin> set u \<Longrightarrow> NL \<notin> set u \<Longrightarrow>
     lazy_more (lit ''}}'' accept) g (u @ ''}}'' @ post) = Some ((g @ u, ()), post)"
proof (induction u arbitrary: g)
  case Nil
  then show ?case by (simp add: lit_def accept_def)
next
  case (Cons c u)
  then have c: "c \<noteq> CHR ''}''" "c \<noteq> NL" by auto
  then have "lit ''}}'' accept (c # u @ ''}}'' @ post) = None" by (simp add: lit_def)
  moreover from Cons have
    "lazy_more (lit ''}}'' accept) (g @ [c]) (u @ ''}}'' @ post) = Some (((g @ [c]) @ u, ()), post)"
    by simp
  ultimately show ?case using c by (simp add: dot_def)
qed

lemma match_marker_exact:
  assumes "t \<noteq> []" "CHR ''}'' \<notin> set t" "NL \<notin> set t"
  shows "match_marker (''{{:'' @ t @ ''}}'' @ post) = Some (t, post)"
proof -
  from assms(1) obtain c u where t: "t = c # u" by (cases t) auto
  with assms have "lazy_more (lit ''}}'' accept) [c] (u @ ''}}'' @ post) = Some (([c] @ u, ()), post)"
    by (intro lazy_more_to_close) auto
  moreover from t assms(3) have "c \<noteq> NL" by auto
  ultimately show ?thesis using t
    by (simp add: match_marker_def lit_def dot_def)
qed

lemma replace_scan_hit:
  "replace_scan ((c # old) @ s) (c # old) new = new @ replace_scan s (c # old) new"
  by simp

lemma strip_Example: "strip ''Example'' = ''Example''"
  by (simp add: strip_def isspace_def)

lemma plain_Cons: "plain (c # s) \<Longrightarrow> plain s"
  by (auto simp: plain_def)

lemma plain_no_start: "plain (c # s) \<Longrightarrow> \<not> startswith (c # s @ rest) (''{{:'' @ m)"
  by (cases s; cases "tl s") (auto simp: plain_def)

lemma replace_scan_plain:
  "plain s \<Longrightarrow> replace_scan (s @ rest) (''{{:'' @ m) new = s @ replace_scan rest (''{{:'' @ m) new"
proof (induction s)
  case Nil
  then show ?case by simp
next
  case (Cons c s)
  from plain_no_start[OF Cons.prems, of rest m] Cons.IH[OF plain_Cons[OF Cons.prems]]
  show ?case by auto
qed

lemma match_marker_needs_start: "\<not> startswith s ''{{:'' \<Longrightarrow> match_marker s = None"
  by (simp add: match_marker_def lit_def)

lemma findall_markers_plain:
  "plain s \<Longrightarrow> findall_markers (s @ rest) = findall_markers rest"
proof (induction s)
  case Nil
  then show ?case by simp
next
  case (Cons c s)
  from plain_no_start[OF Cons.prems, of rest "[]"]
  have "match_marker (c # s @ rest) = None" by (intro match_marker_needs_start) simp
  then have "findall_markers (c # s @ rest) = findall_markers (s @ rest)"
    by (subst findall_markers.simps) simp
  with Cons.IH[OF plain_Cons[OF Cons.prems]] show ?case by simp
qed

lemma no_brace_no_start: "CHR ''{'' \<notin> set s \<Longrightarrow> \<not> contains s p \<or> p = [] \<or> hd p \<noteq> CHR ''{''"
  by (induction s) (auto simp: neq_Nil_conv)

lemma marker_tail_plain: "CHR ''{'' \<notin> set t \<Longrightarrow> plain (''{:'' @ t @ ''}}'')"
proof -
  assume a: "CHR ''{'' \<notin> set t"
  then have "CHR ''{'' \<notin> set ('':'' @ t @ ''}}'')" by simp
  from no_brace_no_start[OF this, of "''{{:''"] have "\<not> contains ('':'' @ t @ ''}}'') ''{{:''"
    by simp
  then show ?thesis by (simp add: plain_def)
qed

lemma same_title:
  "CHR ''}'' \<notin> set t \<Longrightarrow> CHR ''}'' \<notin> set t' \<Longrightarrow>
     startswith (t' @ ''}}'' @ rest) (t @ ''}}'') \<Longrightarrow> t = t'"
proof (induction t arbitrary: t')
  case Nil
  then show ?case by (cases t') auto
next
  case (Cons a u)
  then show ?case by (cases t') auto
qed

lemma replace_scan_other_marker:
  assumes "CHR ''}'' \<notin> set t" "CHR ''}'' \<notin> set t'" "CHR ''{'' \<notin> set t'" "t \<noteq> t'"
  shows "replace_scan (''{{:'' @ t' @ ''}}'' @ rest) (''{{:'' @ t @ ''}}'') new =
         ''{{:'' @ t' @ ''}}'' @ replace_scan rest (''{{:'' @ t @ ''}}'') new"
proof -
  have no: "\<not> startswith (t' @ ''}}'' @ rest) (t @ ''}}'')"
    using same_title[OF assms(1,2)] assms(4) by blast
  have "replace_scan (''{:'' @ t' @ ''}}'' @ rest) (''{{:'' @ t @ ''}}'') new =
        ''{:'' @ t' @ ''}}'' @ replace_scan rest (''{{:'' @ t @ ''}}'') new"
    using replace_scan_plain[OF marker_tail_plain[OF assms(3)], of rest "t @ ''}}''" new] by simp
  with no show ?thesis by simp
qed

lemma replace_render:
  assumes "\<forall>p \<in> set ps. scannable p" and "good_title t"
  shows "replace (render ps) (''{{:'' @ t @ ''}}'') new =
         render (map (\<lambda>p. if p = Marker t then Text new else p) ps)"
proof -
  have "replace_scan (render ps) (''{{:'' @ t @ ''}}'') new =
         render (map (\<lambda>p. if p = Marker t then Text new else p) ps)"
    using assms(1)
  proof (induction ps)
    case Nil
    then show ?case by simp
  next
    case (Cons p ps)
    then have ih: "replace_scan (render ps) (''{{:'' @ t @ ''}}'') new =
         render (map (\<lambda>p. if p = Marker t then Text new else p) ps)" by simp
    show ?case
    proof (cases p)
      case (Text s)
      with Cons.prems have "plain s" by simp
      from replace_scan_plain[OF this, of "render ps" "t @ ''}}''" new] ih Text
      show ?thesis by simp
    next
      case (Marker u)
      with Cons.prems have u: "good_title u" by simp
      show ?thesis
      proof (cases "u = t")
        case True
        have "replace_scan ((''{{:'' @ t @ ''}}'') @ render ps) (''{{:'' @ t @ ''}}'') new =
              new @ replace_scan (render ps) (''{{:'' @ t @ ''}}'') new"
          using replace_scan_hit[of "CHR ''{''" "''{:'' @ t @ ''}}''" "render ps" new] by simp
        with ih Marker True show ?thesis by simp
      next
        case False
        from u assms(2) False
        have "replace_scan (''{{:'' @ u @ ''}}'' @ render ps) (''{{:'' @ t @ ''}}'') new =
              ''{{:'' @ u @ ''}}'' @ replace_scan (render ps) (''{{:'' @ t @ ''}}'') new"
          by (intro replace_scan_other_marker) (auto simp: good_title_def)
        with ih Marker False show ?thesis by simp
      qed
    qed
  qed
  then show ?thesis by (simp add: replace_def)
qed

lemma findall_render:
  "\<forall>p \<in> set ps. scannable p \<Longrightarrow> findall_markers (render ps) = titles ps"
proof (induction ps)
  case Nil
  then show ?case by (simp add: findall_markers_Nil)
next
  case (Cons p ps)
  then have ih: "findall_markers (render ps) = titles ps" by simp
  show ?case
  proof (cases p)
    case (Text s)
    with Cons.prems have "plain s" by simp
    from findall_markers_plain[OF this, of "render ps"] ih Text show ?thesis by simp
  next
    case (Marker u)
    with Cons.prems have "u \<noteq> []" "CHR ''}'' \<notin> set u" "NL \<notin> set u"
      by (simp_all add: good_title_def)
    from match_marker_exact[OF this, of "render ps"]
    have "findall_markers (''{{:'' @ u @ ''}}'' @ render ps) = u # findall_markers (render ps)"
      by (subst findall_markers.simps) simp
    with ih Marker show ?thesis by simp
  qed
qed

lemma resolvable_fetch:
  "resolvable x (Marker t) \<Longrightarrow>
     good_title t \<and> example_content x t = Inr (fragment x t) \<and> plain (fragment x t)"
  by (auto simp: fragment_def split: sum.splits)

lemma resolvable_scannable: "resolvable x p \<Longrightarrow> scannable p"
  by (cases p) simp_all

lemma fill_Nil: "fill x [] p = p"
  by (cases p) simp_all

lemma fill_step:
  "fill x ms (if p = Marker m then Text (fragment x m) else p) = fill x (m # ms) p"
  by (cases p) simp_all

lemma expand_step:
  assumes "\<forall>p \<in> set ps. scannable p" and "resolvable x (Marker m)"
  shows "expand_matches x (m # ms) (render ps) =
         expand_matches x ms (render (map (\<lambda>p. if p = Marker m then Text (fragment x m) else p) ps))"
proof -
  from resolvable_fetch[OF assms(2)] have
    m: "good_title m" and f: "example_content x m = Inr (fragment x m)" by simp_all
  from m have st: "strip m = m" by (simp add: good_title_def)
  have "expand_matches x (m # ms) (render ps) =
        expand_matches x ms (replace (render ps) (''{{:'' @ m @ ''}}'') (fragment x m))"
    by (simp only: expand_matches.simps Let_def st f sum.case)
  then show ?thesis by (simp only: replace_render[OF assms(1) m])
qed

lemma scannable_filled:
  assumes "\<forall>p \<in> set ps. scannable p" and "plain new"
  shows "\<forall>p \<in> set (map (\<lambda>p. if p = Marker m then Text new else p) ps). scannable p"
proof
  fix q
  assume "q \<in> set (map (\<lambda>p. if p = Marker m then Text new else p) ps)"
  then obtain p where p: "p \<in> set ps" and q: "q = (if p = Marker m then Text new else p)"
    by (auto simp only: set_map image_iff)
  from assms(1) p have "scannable p" by blast
  with q assms(2) show "scannable q" by (cases "p = Marker m") simp_all
qed

lemma expand_render:
  assumes "\<forall>p \<in> set ps. scannable p" and "\<forall>m \<in> set ms. resolvable x (Marker m)"
  shows "expand_matches x ms (render ps) = Inr (render (map (fill x ms) ps))"
  using assms
proof (induction ms arbitrary: ps)
  case Nil
  have "map (fill x []) ps = ps" by (induction ps) (simp_all add: fill_Nil)
  then show ?case by simp
next
  case (Cons m ms)
  let ?one = "\<lambda>p. if p = Marker m then Text (fragment x m) else p"
  from Cons.prems(2) have rm: "resolvable x (Marker m)" by simp
  from resolvable_fetch[OF rm] have pl: "plain (fragment x m)" by simp
  have ok: "\<forall>p \<in> set (map ?one ps). scannable p"
    by (rule scannable_filled[OF Cons.prems(1) pl])
  have rest: "\<forall>k \<in> set ms. resolvable x (Marker k)" using Cons.prems(2) by simp
  have fm: "map (fill x ms) (map ?one ps) = map (fill x (m # ms)) ps"
    by (induction ps) (simp_all only: list.map fill_step)
  have "expand_matches x (m # ms) (render ps) = expand_matches x ms (render (map ?one ps))"
    by (rule expand_step[OF Cons.prems(1) rm])
  also have "\<dots> = Inr (render (map (fill x ms) (map ?one ps)))"
    by (rule Cons.IH[OF ok rest])
  finally show ?case by (simp only: fm)
qed

lemma render_all_fetched:
  "set (titles ps) \<subseteq> set ms \<Longrightarrow> render (map (fill x ms) ps) = resolved x ps"
proof (induction ps)
  case Nil
  then show ?case by simp
next
  case (Cons p ps)
  show ?case
  proof (cases p)
    case (Text s)
    with Cons show ?thesis by simp
  next
    case (Marker t)
    with Cons.prems have "t \<in> set ms" "set (titles ps) \<subseteq> set ms" by simp_all
    with Cons.IH Marker show ?thesis by simp
  qed
qed

lemma titles_resolvable:
  "\<forall>p \<in> set ps. resolvable x p \<Longrightarrow> \<forall>m \<in> set (titles ps). resolvable x (Marker m)"
proof (induction ps)
  case Nil
  then show ?case by simp
next
  case (Cons p ps)
  then have ih: "\<forall>m \<in> set (titles ps). resolvable x (Marker m)" by simp
  show ?case
  proof (cases p)
    case (Text s)
    with ih show ?thesis by simp
  next
    case (Marker t)
    with Cons.prems have "resolvable x (Marker t)" by simp
    with ih Marker show ?thesis by (simp del: resolvable.simps)
  qed
qed

lemma findall_resolved: "\<forall>p \<in> set ps. resolvable x p \<Longrightarrow> findall_markers (resolved x ps) = []"
proof (induction ps)
  case Nil
  then show ?case by (simp add: findall_markers_Nil)
next
  case (Cons p ps)
  then have ih: "findall_markers (resolved x ps) = []" by simp
  show ?case
  proof (cases p)
    case (Text s)
    with Cons.prems have "plain s" by simp
    from findall_markers_plain[OF this, of "resolved x ps"] ih Text show ?thesis by simp
  next
    case (Marker u)
    with Cons.prems have "resolvable x (Marker u)" by simp
    from resolvable_fetch[OF this] have "plain (fragment x u)" by simp
    from findall_markers_plain[OF this, of "resolved x ps"] ih Marker show ?thesis by simp
  qed
qed

text \<open>
  C2, as amended. For a body made of texts and markers \<open>{{:t}}\<close>, where no text holds
  \<open>{{:\<close> or ends with an opening brace, every title is not empty and has no brace, no
  newline and no whitespace at its ends, and the fragment fetched for every title is such a
  text too: the result is the body with every marker replaced by the fragment of its
  title, whatever the number of markers and however often a title comes back, and no
  marker is left in it.
\<close>

theorem markers_replaced:
  assumes "\<forall>p \<in> set ps. resolvable x p"
  shows "add_examples_to_content x (render ps) = Inr (resolved x ps) \<and>
         findall_markers (resolved x ps) = []"
proof -
  have ok: "\<forall>p \<in> set ps. scannable p"
    using assms resolvable_scannable by blast
  have found: "findall_markers (render ps) = titles ps"
    by (rule findall_render[OF ok])
  have "expand_matches x (titles ps) (render ps) = Inr (render (map (fill x (titles ps)) ps))"
    by (rule expand_render[OF ok titles_resolvable[OF assms]])
  also have "render (map (fill x (titles ps)) ps) = resolved x ps"
    by (rule render_all_fetched) simp
  finally have "add_examples_to_content x (render ps) = Inr (resolved x ps)"
    by (simp only: add_examples_to_content_def found)
  with findall_resolved[OF assms] show ?thesis by blast
qed

theorem markers_replaced_witness:
  "resolvable stub_ext (Text ''{| see '') \<and> resolvable stub_ext (Marker ''A'') \<and>
   resolvable stub_ext (Text '' and {{tpl}} '') \<and> resolvable stub_ext (Marker ''B'') \<and>
   resolvable stub_ext (Text '' |}'') \<and>
   add_examples_to_content stub_ext ''{| see {{:A}} and {{tpl}} {{:B}} |}'' =
     Inr ''{| see A and {{tpl}} B |}'' \<and>
   findall_markers ''{| see A and {{tpl}} B |}'' = []"
proof -
  let ?ps = "[Text ''{| see '', Marker ''A'', Text '' and {{tpl}} '', Marker ''B'', Text '' |}'']"
  have r: "resolvable stub_ext (Text ''{| see '')" "resolvable stub_ext (Marker ''A'')"
    "resolvable stub_ext (Text '' and {{tpl}} '')" "resolvable stub_ext (Marker ''B'')"
    "resolvable stub_ext (Text '' |}'')"
    by code_simp+
  then have all: "\<forall>p \<in> set ?ps. resolvable stub_ext p"
    by (simp del: resolvable.simps)
  have body: "render ?ps = ''{| see {{:A}} and {{tpl}} {{:B}} |}''"
    by code_simp
  have result: "resolved stub_ext ?ps = ''{| see A and {{tpl}} B |}''"
    by code_simp
  from markers_replaced[OF all] have
    "add_examples_to_content stub_ext (render ?ps) = Inr (resolved stub_ext ?ps) \<and>
     findall_markers (resolved stub_ext ?ps) = []" .
  then have "add_examples_to_content stub_ext ''{| see {{:A}} and {{tpl}} {{:B}} |}'' =
     Inr ''{| see A and {{tpl}} B |}'' \<and>
   findall_markers ''{| see A and {{tpl}} B |}'' = []"
    by (simp only: body result)
  with r show ?thesis by blast
qed

text \<open>
  The claim as it was stated fails when the fetched fragment is itself a marker: the
  single pass puts it into the result and does not look at it again.
\<close>

theorem fragment_marker_counterexample:
  "add_examples_to_content marker_ext ''{{:Example}}'' = Inr ''{{:Other}}'' \<and>
   findall_markers ''{{:Other}}'' = [''Other'']"
proof -
  have m: "\<And>t. t \<noteq> [] \<Longrightarrow> CHR ''}'' \<notin> set t \<Longrightarrow> NL \<notin> set t \<Longrightarrow>
      findall_markers (''{{:'' @ t @ ''}}'') = [t]"
    using match_marker_exact[of _ "[]"]
    by (subst findall_markers.simps) (simp add: findall_markers_Nil)
  have f1: "findall_markers ''{{:Example}}'' = [''Example'']"
    using m[of "''Example''"] by simp
  have f2: "findall_markers ''{{:Other}}'' = [''Other'']"
    using m[of "''Other''"] by simp
  have "example_content marker_ext ''Example'' = Inr ''{{:Other}}''"
    by (simp add: example_content_def marker_ext_def stub_ext_def)
  with f1 f2 strip_Example show ?thesis
    by (simp add: add_examples_to_content_def replace_def)
qed

text \<open>
  A marker whose title is written with spaces around it is fetched under the stripped
  title, and the marker looked for is rebuilt from the stripped title: it is not in the
  body, and the marker stays.
\<close>

lemma padded_marker_left:
  "add_examples_to_content stub_ext ''{{: B }}'' = Inr ''{{: B }}''"
  by code_simp

section \<open>The string functions on sample inputs\<close>

text \<open>
  The values CPython 3 gives for \<open>pattern.findall\<close>, \<open>re.sub\<close> and \<open>str.replace\<close> on
  these inputs, among them the cases where the lazy quantifier has to give a character
  back, where a newline stops the dot, and where the old string is empty.
\<close>

lemma findall_markers_examples:
  "findall_markers ''{{:{{:A}}x}} {{:}}} {{: B }}{{:}}'' = [''{{:A'', ''}'', '' B '']"
  "findall_markers (''{{:a'' @ NL # ''b}}'') = []"
  by code_simp+

lemma remove_links_examples:
  "remove_links (''a'' @ BS # ''url{x}{y}b '' @ BS # ''url{}{z}{w} '' @ BS # ''url{p}{}q}'') =
     ''ayb w }q''"
  by code_simp

lemma safe_title_more_examples:
  "safe_title ''a - b'' = ''a_b''" "safe_title ''--'' = ''_''" "safe_title '' x/y.z '' = ''_xyz_''"
  by code_simp+

lemma replace_examples:
  "replace ''aaa'' ''aa'' ''b'' = ''ba''" "replace ''abc'' [] ''-'' = ''-a-b-c-''"
  by code_simp+

end
